theory Spec2Isabelle
  imports Main "HOL-Library.Sublist"
begin

section \<open>Endpoint construction\<close>

text \<open>
  The component \<^verbatim>\<open>ClimateMapApp\<close> (\<^verbatim>\<open>web/src/components/ClimateMapApp.tsx\<close>) computes the
  address of the processing service inside \<^verbatim>\<open>handleProcess\<close>:
  \<^verbatim>\<open>
  const baseUrl = backendUrl || (typeof window !== "undefined" ? window.location.origin : "");
  const endpoint = `${baseUrl.replace(/\/$/, "")}/api/procesar/`;
  \<close>
  What the component takes from outside itself is collected in \<open>env\<close>: the build-time
  variable \<^verbatim>\<open>import.meta.env.PUBLIC_BACKEND_URL\<close> (\<open>None\<close> when it is undefined),
  \<^verbatim>\<open>window.location.origin\<close> (\<open>None\<close> when \<^verbatim>\<open>window\<close> is undefined), and the messages
  of the two \<^verbatim>\<open>TypeError\<close>s that the JavaScript engine can throw inside \<^verbatim>\<open>handleProcess\<close>
  (their wording differs between engines): for reading a property of \<^verbatim>\<open>null\<close>, and for
  an object that cannot be converted to a primitive value.
\<close>

record env =
  PUBLIC_BACKEND_URL :: "string option"
  window_origin :: "string option"
  null_property_error :: string
  to_primitive_error :: string

text \<open>
  \<^verbatim>\<open>s.replace(/\/$/, "")\<close>: the regular expression has no flag, so \<^verbatim>\<open>$\<close> matches at the end
  of the input only and the first (and only possible) match is a \<^verbatim>\<open>/\<close> in the last
  position. The matcher tries the positions from the left; the function below does the
  same and deletes the match.
\<close>

fun replace_trailing_slash :: "string \<Rightarrow> string" where
  "replace_trailing_slash [] = []"
| "replace_trailing_slash (c # cs) =
     (if c = CHR ''/'' \<and> cs = [] then [] else c # replace_trailing_slash cs)"

text \<open>\<^verbatim>\<open>backendUrl || (...)\<close>: the empty string is the only falsy string.\<close>

definition baseUrl_of :: "env \<Rightarrow> string \<Rightarrow> string" where
  "baseUrl_of e backendUrl =
     (if backendUrl \<noteq> [] then backendUrl
      else (case window_origin e of Some origin \<Rightarrow> origin | None \<Rightarrow> []))"

definition endpoint_of :: "string \<Rightarrow> string" where
  "endpoint_of baseUrl = replace_trailing_slash baseUrl @ ''/api/procesar/''"

section \<open>Data model\<close>

text \<open>
  A browser \<^verbatim>\<open>File\<close> is represented by its name and size, the body of a response by its
  bytes. \<^verbatim>\<open>URL.createObjectURL\<close> returns a new, unique object URL on every call: object
  URLs are numbered in the order of their creation, and \<open>next_url\<close> of the world below
  is the next number. An object URL is never the empty string, so the test
  \<^verbatim>\<open>if (resultImage)\<close> is the test against \<^verbatim>\<open>null\<close>.
\<close>

datatype jsfile = File (file_name: string) (file_size: int)

datatype blob = Blob string

type_synonym url = nat

text \<open>The \<^verbatim>\<open>useState\<close> cells of \<^verbatim>\<open>ClimateMapApp\<close>.\<close>

record app_state =
  pdf :: "jsfile option"
  shp :: "jsfile option"
  isProcessing :: bool
  resultImage :: "url option"
  errorDetails :: "string option"
  showConfig :: bool
  backendUrl :: string

text \<open>The \<^verbatim>\<open>useState\<close> cell of a \<^verbatim>\<open>Dropzone\<close>.\<close>

record dropzone =
  isDragging :: bool

text \<open>
  What the component does to the browser, in the order in which it does it: the request
  (always a \<^verbatim>\<open>POST\<close>, with the parts of the \<^verbatim>\<open>FormData\<close> in the order they were appended)
  and the two calls on object URLs.
\<close>

datatype effect =
    Fetch string "(string \<times> jsfile) list"
  | CreateObjectURL blob url
  | RevokeObjectURL url

text \<open>
  What \<^verbatim>\<open>fetch\<close> can answer. The promise is rejected with an error (represented by its
  \<^verbatim>\<open>message\<close>) or resolved with a response. Of a response the component reads
  \<^verbatim>\<open>ok\<close>, \<^verbatim>\<open>statusText\<close>, \<^verbatim>\<open>json()\<close> and \<^verbatim>\<open>blob()\<close>.
  \<^item> \<open>json\<close> is \<open>None\<close> when \<^verbatim>\<open>response.json()\<close> is rejected (the body is not JSON),
    and the value the body parses to otherwise. The component takes this value as
    \<^verbatim>\<open>any\<close>, so it can be any JSON value.
  \<^item> \<open>blob\<close> is \<open>Inl message\<close> when \<^verbatim>\<open>response.blob()\<close> is rejected.
\<close>

text \<open>
  The values \<^verbatim>\<open>JSON.parse\<close> produces. A number is represented by the text that
  JavaScript prints for it (\<^verbatim>\<open>String(n)\<close>), which is \<^verbatim>\<open>0\<close> for both zeros; an object by
  its members in the order of the text, where a later member replaces an earlier one of
  the same name.
\<close>

datatype json =
    JNull
  | JBool bool
  | JNumber string
  | JString string
  | JArray "json list"
  | JObject "(string \<times> json) list"

record response =
  ok :: bool
  statusText :: string
  json :: "json option"
  blob :: "string + blob"

datatype outcome = Rejected string | Resolved response

text \<open>
  A call of \<^verbatim>\<open>handleProcess\<close> that is suspended at \<^verbatim>\<open>await fetch(...)\<close>. The function is a
  closure of the render in which the button was clicked: when it goes on after the
  \<^verbatim>\<open>await\<close> it still sees the \<^verbatim>\<open>endpoint\<close> it computed and the \<^verbatim>\<open>resultImage\<close> of that
  render, not the current state.
\<close>

record request =
  req_endpoint :: string
  req_resultImage :: "url option"

record world =
  app :: app_state
  pdfZone :: dropzone
  shpZone :: dropzone
  pending :: "request list"
  effects :: "effect list"
  next_url :: url

definition initial_app :: "env \<Rightarrow> app_state" where
  "initial_app e =
     \<lparr> pdf = None, shp = None, isProcessing = False, resultImage = None,
       errorDetails = None, showConfig = False,
       backendUrl = (case PUBLIC_BACKEND_URL e of
                       Some u \<Rightarrow> (if u \<noteq> [] then u else [])
                     | None \<Rightarrow> []) \<rparr>"

definition initial :: "env \<Rightarrow> world" where
  "initial e =
     \<lparr> app = initial_app e, pdfZone = \<lparr> isDragging = False \<rparr>,
       shpZone = \<lparr> isDragging = False \<rparr>, pending = [], effects = [], next_url = 0 \<rparr>"

section \<open>Dropzone\<close>

text \<open>
  The handlers of a \<^verbatim>\<open>Dropzone\<close> return the new state of the zone and the calls of
  \<^verbatim>\<open>onFileSelect\<close> they make, in order; the argument of a call is \<open>None\<close> for
  \<^verbatim>\<open>onFileSelect(null as any)\<close>. \<^verbatim>\<open>preventDefault\<close> and \<^verbatim>\<open>stopPropagation\<close> act on the
  event only and are left out.
\<close>

definition handleDrag :: "string \<Rightarrow> dropzone \<Rightarrow> dropzone" where
  "handleDrag type d =
     (if type = ''dragenter'' \<or> type = ''dragover'' then d\<lparr>isDragging := True\<rparr>
      else if type = ''dragleave'' then d\<lparr>isDragging := False\<rparr>
      else d)"

text \<open>
  \<^verbatim>\<open>e.dataTransfer.files\<close> is a \<^verbatim>\<open>FileList\<close>, here the list of its files;
  \<^verbatim>\<open>files[0]\<close> of an empty list is \<^verbatim>\<open>undefined\<close>.
\<close>

definition handleDrop :: "jsfile list \<Rightarrow> dropzone \<Rightarrow> dropzone \<times> jsfile option list" where
  "handleDrop files d =
     (d\<lparr>isDragging := False\<rparr>, (case files of [] \<Rightarrow> [] | f # _ \<Rightarrow> [Some f]))"

text \<open>
  \<^verbatim>\<open>onChange={(e) => e.target.files?.[0] && onFileSelect(e.target.files[0])}\<close>;
  \<^verbatim>\<open>e.target.files\<close> may be \<^verbatim>\<open>null\<close>.
\<close>

definition onChange :: "jsfile list option \<Rightarrow> jsfile option list" where
  "onChange files =
     (case files of None \<Rightarrow> [] | Some [] \<Rightarrow> [] | Some (f # _) \<Rightarrow> [Some f])"

text \<open>
  The \<^verbatim>\<open>FileCard\<close> with its remove button is rendered only while the slot holds a file;
  \<^verbatim>\<open>onRemove={() => onFileSelect(null as any)}\<close>.
\<close>

definition onRemove :: "jsfile option \<Rightarrow> jsfile option list" where
  "onRemove slot = (case slot of None \<Rightarrow> [] | Some _ \<Rightarrow> [None])"

datatype zone_event =
    Drag string
  | Drop "jsfile list"
  | InputChange "jsfile list option"
  | RemoveClick

fun dropzone_event :: "zone_event \<Rightarrow> jsfile option \<Rightarrow> dropzone \<Rightarrow> dropzone \<times> jsfile option list" where
  "dropzone_event (Drag type) slot d = (handleDrag type d, [])"
| "dropzone_event (Drop files) slot d = handleDrop files d"
| "dropzone_event (InputChange files) slot d = (d, onChange files)"
| "dropzone_event RemoveClick slot d = (d, onRemove slot)"

section \<open>ClimateMapApp\<close>

definition setPdf :: "jsfile option \<Rightarrow> world \<Rightarrow> world" where
  "setPdf f w = w\<lparr>app := (app w)\<lparr>pdf := f\<rparr>\<rparr>"

definition setShp :: "jsfile option \<Rightarrow> world \<Rightarrow> world" where
  "setShp f w = w\<lparr>app := (app w)\<lparr>shp := f\<rparr>\<rparr>"

text \<open>
  \<^verbatim>\<open>handleProcess\<close> up to \<^verbatim>\<open>await fetch(endpoint, ...)\<close>: the guard, the three state
  updates, the form data, the endpoint and the call of \<^verbatim>\<open>fetch\<close>. The suspended call is
  added to \<open>pending\<close>.
\<close>

definition handleProcess :: "env \<Rightarrow> world \<Rightarrow> world" where
  "handleProcess e w =
     (case (pdf (app w), shp (app w)) of
        (Some p, Some s) \<Rightarrow>
          (let endpoint = endpoint_of (baseUrl_of e (backendUrl (app w)))
           in w\<lparr> app := (app w)\<lparr>isProcessing := True, resultImage := None,
                                errorDetails := None\<rparr>,
                  effects := effects w @ [Fetch endpoint [(''pdf'', p), (''shp'', s)]],
                  pending := pending w @
                    [\<lparr> req_endpoint = endpoint, req_resultImage = resultImage (app w) \<rparr>] \<rparr>)
      | _ \<Rightarrow> w)"

text \<open>
  \<^verbatim>\<open>errJson.detail\<close> on a value of type \<^verbatim>\<open>any\<close>: reading a property of \<^verbatim>\<open>null\<close> throws a
  \<^verbatim>\<open>TypeError\<close>; an object gives its own member of this name, the last one when the
  text has several; every other value, and an object without the member, gives
  \<^verbatim>\<open>undefined\<close> (no prototype has a property \<^verbatim>\<open>detail\<close>).
\<close>

datatype property = Throws | Undefined | Value json

fun get_detail :: "json \<Rightarrow> property" where
  "get_detail JNull = Throws"
| "get_detail (JObject members) =
     (case map_of (rev members) ''detail'' of None \<Rightarrow> Undefined | Some v \<Rightarrow> Value v)"
| "get_detail _ = Undefined"

text \<open>The values that \<^verbatim>\<open>||\<close> keeps: all but \<^verbatim>\<open>null\<close>, \<^verbatim>\<open>false\<close>, zero and the empty string.\<close>

fun truthy :: "json \<Rightarrow> bool" where
  "truthy JNull = False"
| "truthy (JBool b) = b"
| "truthy (JNumber n) = (n \<noteq> ''0'')"
| "truthy (JString s) = (s \<noteq> [])"
| "truthy (JArray xs) = True"
| "truthy (JObject members) = True"

text \<open>
  \<^verbatim>\<open>new Error(message)\<close> converts its argument to a string. An array is joined with
  commas, \<^verbatim>\<open>null\<close> elements giving the empty string. An object gives
  \<^verbatim>\<open>[object Object]\<close>, unless it has a member \<^verbatim>\<open>toString\<close> of its own: this member hides
  \<^verbatim>\<open>Object.prototype.toString\<close> and is not a function, \<^verbatim>\<open>valueOf\<close> gives no primitive
  value either, and the conversion throws a \<^verbatim>\<open>TypeError\<close> (the result \<open>None\<close>).
\<close>

fun ToString :: "json \<Rightarrow> string option" and join :: "json list \<Rightarrow> string option" where
  "ToString JNull = Some ''null''"
| "ToString (JBool b) = Some (if b then ''true'' else ''false'')"
| "ToString (JNumber n) = Some n"
| "ToString (JString s) = Some s"
| "ToString (JArray xs) = join xs"
| "ToString (JObject members) =
     (if ''toString'' \<in> fst ` set members then None else Some ''[object Object]'')"
| "join [] = Some []"
| "join (x # xs) =
     (case (if x = JNull then Some [] else ToString x) of
        None \<Rightarrow> None
      | Some s \<Rightarrow>
          (if xs = [] then Some s
           else (case join xs of None \<Rightarrow> None | Some t \<Rightarrow> Some (s @ '','' @ t))))"

text \<open>
  \<^verbatim>\<open>
  const errJson = await response.json().catch(() => ({ detail: response.statusText }));
  throw new Error(errJson.detail || "Error processing files");
  \<close>
  The message of the error that leaves these two lines: the error that is thrown in
  the second line, or the \<^verbatim>\<open>TypeError\<close> that reading \<^verbatim>\<open>detail\<close> or the conversion of the
  argument throws. All of them are thrown inside the \<^verbatim>\<open>try\<close> block.
\<close>

definition error_message :: "env \<Rightarrow> response \<Rightarrow> string" where
  "error_message e resp =
     (let errJson = (case json resp of
                       None \<Rightarrow> JObject [(''detail'', JString (statusText resp))]
                     | Some j \<Rightarrow> j)
      in (case get_detail errJson of
            Throws \<Rightarrow> null_property_error e
          | Undefined \<Rightarrow> ''Error processing files''
          | Value v \<Rightarrow>
              (if truthy v
               then (case ToString v of Some s \<Rightarrow> s | None \<Rightarrow> to_primitive_error e)
               else ''Error processing files'')))"

text \<open>
  \<^verbatim>\<open>catch (err) { setErrorDetails(`${err.message} (URL: ${endpoint})`); }
  finally { setIsProcessing(false); }\<close>
\<close>

definition catch_finally :: "request \<Rightarrow> string \<Rightarrow> world \<Rightarrow> world" where
  "catch_finally r message w =
     w\<lparr>app := (app w)\<lparr>errorDetails := Some (message @ '' (URL: '' @ req_endpoint r @ '')''),
                       isProcessing := False\<rparr>\<rparr>"

text \<open>
  \<^verbatim>\<open>handleProcess\<close> after the \<^verbatim>\<open>await\<close>, for the answer \<open>out\<close> of \<^verbatim>\<open>fetch\<close>. While the
  call waits for \<^verbatim>\<open>response.json()\<close> or \<^verbatim>\<open>response.blob()\<close> it reads nothing of the state,
  so the rest of the function is taken as one step.
\<close>

definition handleProcess_resume :: "env \<Rightarrow> request \<Rightarrow> outcome \<Rightarrow> world \<Rightarrow> world" where
  "handleProcess_resume e r out w =
     (case out of
        Rejected message \<Rightarrow> catch_finally r message w
      | Resolved resp \<Rightarrow>
          (if \<not> ok resp then catch_finally r (error_message e resp) w
           else (case blob resp of
                   Inl message \<Rightarrow> catch_finally r message w
                 | Inr b \<Rightarrow>
                     (let imageUrl = next_url w;
                          w1 = w\<lparr> effects := effects w @ [CreateObjectURL b imageUrl],
                                  next_url := Suc (next_url w) \<rparr>;
                          w2 = (case req_resultImage r of
                                  Some old \<Rightarrow> w1\<lparr>effects := effects w1 @ [RevokeObjectURL old]\<rparr>
                                | None \<Rightarrow> w1)
                      in w2\<lparr>app := (app w2)\<lparr>resultImage := Some imageUrl,
                                              isProcessing := False\<rparr>\<rparr>))))"

definition handleReset :: "world \<Rightarrow> world" where
  "handleReset w =
     (let w1 = (case resultImage (app w) of
                  Some u \<Rightarrow> w\<lparr>effects := effects w @ [RevokeObjectURL u]\<rparr>
                | None \<Rightarrow> w)
      in w1\<lparr>app := (app w1)\<lparr>pdf := None, shp := None, resultImage := None,
                              errorDetails := None\<rparr>\<rparr>)"

text \<open>\<^verbatim>\<open>disabled={!pdf || !shp || isProcessing}\<close> of the submit button.\<close>

definition submit_disabled :: "app_state \<Rightarrow> bool" where
  "submit_disabled a \<longleftrightarrow> pdf a = None \<or> shp a = None \<or> isProcessing a"

section \<open>Events\<close>

text \<open>
  What can happen to the rendered component: an event of one of the two zones, a click
  on the settings button, typing in the address field (rendered while \<^verbatim>\<open>showConfig\<close>),
  a click on the submit button (a disabled button receives no click), a click on
  \<^verbatim>\<open>Reiniciar\<close> (rendered with the result view, that is while \<^verbatim>\<open>resultImage\<close> is set),
  and the answer of \<^verbatim>\<open>fetch\<close> to the pending call number \<open>i\<close>. A click on the surface
  of an empty zone only opens the file picker and is left out.

  The component is rendered anew after every event, so the handler that an event calls
  is the closure of the current state: it reads \<^verbatim>\<open>pdf\<close>, \<^verbatim>\<open>shp\<close>, \<^verbatim>\<open>backendUrl\<close> and
  \<^verbatim>\<open>resultImage\<close> as they are when the event happens.
\<close>

datatype zone = PdfZone | ShpZone

datatype event =
    Zone zone zone_event
  | SettingsClick
  | UrlInput string
  | SubmitClick
  | ResetClick
  | Settled nat outcome

fun onFileSelect :: "zone \<Rightarrow> jsfile option \<Rightarrow> world \<Rightarrow> world" where
  "onFileSelect PdfZone f w = setPdf f w"
| "onFileSelect ShpZone f w = setShp f w"

fun zone_step :: "zone \<Rightarrow> zone_event \<Rightarrow> world \<Rightarrow> world" where
  "zone_step PdfZone ze w =
     (case dropzone_event ze (pdf (app w)) (pdfZone w) of
        (d, calls) \<Rightarrow> fold (onFileSelect PdfZone) calls (w\<lparr>pdfZone := d\<rparr>))"
| "zone_step ShpZone ze w =
     (case dropzone_event ze (shp (app w)) (shpZone w) of
        (d, calls) \<Rightarrow> fold (onFileSelect ShpZone) calls (w\<lparr>shpZone := d\<rparr>))"

fun step :: "env \<Rightarrow> event \<Rightarrow> world \<Rightarrow> world" where
  "step e (Zone z ze) w = zone_step z ze w"
| "step e SettingsClick w = w\<lparr>app := (app w)\<lparr>showConfig := \<not> showConfig (app w)\<rparr>\<rparr>"
| "step e (UrlInput s) w =
     (if showConfig (app w) then w\<lparr>app := (app w)\<lparr>backendUrl := s\<rparr>\<rparr> else w)"
| "step e SubmitClick w = (if submit_disabled (app w) then w else handleProcess e w)"
| "step e ResetClick w = (if resultImage (app w) \<noteq> None then handleReset w else w)"
| "step e (Settled i out) w =
     (if i < length (pending w)
      then handleProcess_resume e (pending w ! i) out
             (w\<lparr>pending := take i (pending w) @ drop (Suc i) (pending w)\<rparr>)
      else w)"

fun run :: "env \<Rightarrow> event list \<Rightarrow> world \<Rightarrow> world" where
  "run e [] w = w"
| "run e (ev # evs) w = run e evs (step e ev w)"

section \<open>Object URLs in the record of effects\<close>

fun created_by :: "effect \<Rightarrow> url list" where
  "created_by (CreateObjectURL b u) = [u]"
| "created_by _ = []"

fun revoked_by :: "effect \<Rightarrow> url list" where
  "revoked_by (RevokeObjectURL u) = [u]"
| "revoked_by _ = []"

definition created :: "world \<Rightarrow> url list" where
  "created w = concat (map created_by (effects w))"

definition revoked :: "world \<Rightarrow> url list" where
  "revoked w = concat (map revoked_by (effects w))"

text \<open>The object URLs that exist and have not been released.\<close>

definition live :: "world \<Rightarrow> url set" where
  "live w = set (created w) - set (revoked w)"

text \<open>The object URLs that pending calls will release when they succeed.\<close>

definition captured :: "world \<Rightarrow> url set" where
  "captured w = (\<Union>r \<in> set (pending w). set_option (req_resultImage r))"

text \<open>An answer that takes \<^verbatim>\<open>handleProcess\<close> into its \<^verbatim>\<open>catch\<close> branch.\<close>

fun failed :: "outcome \<Rightarrow> bool" where
  "failed (Rejected message) = True"
| "failed (Resolved resp) = (\<not> ok resp \<or> isl (blob resp))"

text \<open>
  The object URLs that were displayed when a submission started which then failed, along
  a sequence of events.
\<close>

fun dropped_by :: "event \<Rightarrow> world \<Rightarrow> url list" where
  "dropped_by (Settled i out) w =
     (if i < length (pending w) \<and> failed out
      then (case req_resultImage (pending w ! i) of Some u \<Rightarrow> [u] | None \<Rightarrow> [])
      else [])"
| "dropped_by _ w = []"

fun dropped :: "env \<Rightarrow> event list \<Rightarrow> world \<Rightarrow> url list" where
  "dropped e [] w = []"
| "dropped e (ev # evs) w = dropped_by ev w @ dropped e evs (step e ev w)"

section \<open>Invariants of the rendered component\<close>

text \<open>
  At most one call of \<^verbatim>\<open>handleProcess\<close> is suspended, \<^verbatim>\<open>isProcessing\<close> says whether one
  is, and while one is neither a result nor an error is in the state.
\<close>

definition single_flight :: "world \<Rightarrow> bool" where
  "single_flight w \<longleftrightarrow>
     length (pending w) \<le> 1 \<and>
     (isProcessing (app w) \<longleftrightarrow> pending w \<noteq> []) \<and>
     (isProcessing (app w) \<longrightarrow> resultImage (app w) = None \<and> errorDetails (app w) = None)"

text \<open>
  The books of the object URLs, with \<open>D\<close> the URLs dropped so far: the URLs created are
  \<open>0, \<dots>, next_url - 1\<close> in this order; none was released twice; none that is displayed
  or that a pending call will release was released; and every URL created was released,
  is displayed, will be released by a pending call, or was dropped.
\<close>

definition accounted :: "world \<Rightarrow> url list \<Rightarrow> bool" where
  "accounted w D \<longleftrightarrow>
     created w = [0..<next_url w] \<and>
     distinct (revoked w) \<and>
     set (revoked w) \<inter> (set_option (resultImage (app w)) \<union> captured w) = {} \<and>
     set (revoked w) \<union> set_option (resultImage (app w)) \<union> captured w \<union> set D
       = {0..<next_url w}"

section \<open>Sample inputs\<close>

definition sample_env :: env where
  "sample_env = \<lparr> PUBLIC_BACKEND_URL = Some ''http://x/'',
                   window_origin = Some ''http://localhost:4321'',
                   null_property_error = ''Cannot read properties of null (reading 'detail')'',
                   to_primitive_error = ''Cannot convert object to primitive value'' \<rparr>"

definition document_pdf :: jsfile where
  "document_pdf = File ''document.pdf'' 1200000"

definition geometry_zip :: jsfile where
  "geometry_zip = File ''geometry.zip'' 3400000"

definition select_both :: "event list" where
  "select_both = [Zone PdfZone (Drop [document_pdf]),
                  Zone ShpZone (InputChange (Some [geometry_zip]))]"

definition image_response :: "string \<Rightarrow> outcome" where
  "image_response bytes =
     Resolved \<lparr> ok = True, statusText = ''OK'', json = None, blob = Inr (Blob bytes) \<rparr>"

definition error_body :: "string \<Rightarrow> json option \<Rightarrow> response" where
  "error_body status body =
     \<lparr> ok = False, statusText = status, json = body, blob = Inr (Blob []) \<rparr>"

definition error_response :: "string \<Rightarrow> json option \<Rightarrow> outcome" where
  "error_response status body = Resolved (error_body status body)"

definition first_success :: "event list" where
  "first_success = select_both @ [SubmitClick, Settled 0 (image_response ''png1'')]"

text \<open>
  A first submission that succeeds, a second one that fails, and a third one that
  succeeds.
\<close>

definition success_failure_success :: "event list" where
  "success_failure_success =
     first_success @
     [SubmitClick,
      Settled 0 (error_response ''Internal Server Error''
                   (Some (JObject [(''detail'', JString ''invalid geometry'')]))),
      SubmitClick, Settled 0 (image_response ''png2'')]"

text \<open>Two submissions that succeed, then a reset.\<close>

definition success_success_reset :: "event list" where
  "success_success_reset =
     first_success @ [SubmitClick, Settled 0 (image_response ''png2''), ResetClick]"

section \<open>Properties of the endpoint construction\<close>

lemmas sample_defs =
  sample_env_def document_pdf_def geometry_zip_def select_both_def image_response_def
  error_body_def error_response_def first_success_def success_failure_success_def
  success_success_reset_def

lemmas model_defs =
  initial_def initial_app_def handleDrag_def handleDrop_def onChange_def onRemove_def
  setPdf_def setShp_def handleProcess_def error_message_def catch_finally_def
  handleProcess_resume_def handleReset_def submit_disabled_def endpoint_of_def
  baseUrl_of_def created_def revoked_def live_def captured_def Let_def


lemma replace_trailing_slash_snoc:
  "replace_trailing_slash (b @ ''/'') = b"
  by (induction b) auto

lemma replace_trailing_slash_id:
  "b = [] \<or> last b \<noteq> CHR ''/'' \<Longrightarrow> replace_trailing_slash b = b"
  by (induction b) (auto split: if_splits)

lemma replace_trailing_slash_cases:
  "replace_trailing_slash s = s \<or> replace_trailing_slash s @ ''/'' = s"
  by (induction s) auto

section \<open>The invariants hold along every sequence of events\<close>

lemma zone_step_frame:
  "pending (zone_step z ze w) = pending w"
  "effects (zone_step z ze w) = effects w"
  "next_url (zone_step z ze w) = next_url w"
  "isProcessing (app (zone_step z ze w)) = isProcessing (app w)"
  "resultImage (app (zone_step z ze w)) = resultImage (app w)"
  "errorDetails (app (zone_step z ze w)) = errorDetails (app w)"
  "backendUrl (app (zone_step z ze w)) = backendUrl (app w)"
  "showConfig (app (zone_step z ze w)) = showConfig (app w)"
  by (cases z; cases ze;
      simp add: handleDrop_def onChange_def onRemove_def setPdf_def setShp_def
           split: list.split option.split)+

lemma single_flight_initial: "single_flight (initial e)"
  by (simp add: single_flight_def initial_def initial_app_def)

lemma single_flight_step: "single_flight w \<Longrightarrow> single_flight (step e ev w)"
proof (cases ev)
  case (Zone z ze)
  assume "single_flight w"
  then show ?thesis using Zone by (simp add: single_flight_def zone_step_frame)
next
  case SettingsClick
  assume "single_flight w"
  then show ?thesis using SettingsClick by (simp add: single_flight_def)
next
  case (UrlInput s)
  assume "single_flight w"
  then show ?thesis using UrlInput by (simp add: single_flight_def)
next
  case SubmitClick
  assume "single_flight w"
  then show ?thesis using SubmitClick
    by (auto simp add: single_flight_def submit_disabled_def handleProcess_def Let_def
             split: option.splits)
next
  case ResetClick
  assume "single_flight w"
  then show ?thesis using ResetClick
    by (auto simp add: single_flight_def handleReset_def Let_def split: option.splits)
next
  case (Settled i out)
  assume sf: "single_flight w"
  show ?thesis
  proof (cases "i < length (pending w)")
    case False
    then show ?thesis using sf Settled by simp
  next
    case True
    with sf obtain r where r: "pending w = [r]" "i = 0"
      by (cases "pending w") (auto simp: single_flight_def)
    then show ?thesis using sf Settled
      by (auto simp add: single_flight_def handleProcess_resume_def catch_finally_def Let_def
               split: outcome.splits sum.splits option.splits)
  qed
qed

lemma single_flight_run: "single_flight w \<Longrightarrow> single_flight (run e evs w)"
  by (induction evs arbitrary: w) (simp_all add: single_flight_step)

lemma accounted_initial: "accounted (initial e) []"
  by (simp add: accounted_def initial_def initial_app_def created_def revoked_def captured_def)

lemma accounted_revoked_bound:
  "accounted w D \<Longrightarrow> u \<in> set (revoked w) \<Longrightarrow> u < next_url w"
  by (auto simp: accounted_def)

lemma accounted_step:
  assumes sf: "single_flight w" and acc: "accounted w D"
  shows "accounted (step e ev w) (D @ dropped_by ev w)"
proof (cases ev)
  case (Zone z ze)
  then show ?thesis using acc
    by (simp add: accounted_def created_def revoked_def captured_def zone_step_frame)
next
  case SettingsClick
  then show ?thesis using acc
    by (simp add: accounted_def created_def revoked_def captured_def)
next
  case (UrlInput s)
  then show ?thesis using acc
    by (simp add: accounted_def created_def revoked_def captured_def)
next
  case SubmitClick
  show ?thesis
  proof (cases "submit_disabled (app w)")
    case True
    then show ?thesis using acc SubmitClick by simp
  next
    case False
    then have "pending w = []" using sf
      by (simp add: submit_disabled_def single_flight_def)
    then show ?thesis using acc SubmitClick False
      by (auto simp add: accounted_def created_def revoked_def captured_def
               submit_disabled_def handleProcess_def Let_def split: option.splits)
  qed
next
  case ResetClick
  show ?thesis
  proof (cases "resultImage (app w)")
    case None
    then show ?thesis using acc ResetClick by simp
  next
    case (Some u)
    then have "\<not> isProcessing (app w)" using sf by (auto simp: single_flight_def)
    then have "pending w = []" using sf by (simp add: single_flight_def)
    then show ?thesis using acc ResetClick Some
      by (auto simp add: accounted_def created_def revoked_def captured_def
               handleReset_def Let_def)
  qed
next
  case (Settled i out)
  show ?thesis
  proof (cases "i < length (pending w)")
    case False
    then show ?thesis using acc Settled by simp
  next
    case True
    with sf obtain r where r: "pending w = [r]" "i = 0"
      by (cases "pending w") (auto simp: single_flight_def)
    then have none: "resultImage (app w) = None" using sf by (simp add: single_flight_def)
    show ?thesis
    proof (cases "failed out")
      case True
      then show ?thesis using acc Settled r none
        by (auto simp add: accounted_def created_def revoked_def captured_def
                 handleProcess_resume_def catch_finally_def
                 split: outcome.splits sum.splits option.splits if_splits)
    next
      case False
      then obtain resp where resp: "out = Resolved resp" "ok resp" "\<not> isl (blob resp)"
        by (cases out) auto
      then obtain b where "blob resp = Inr b"
        by (cases "blob resp") auto
      with resp have out: "out = Resolved resp" "ok resp" "blob resp = Inr b"
        by simp_all
      have bound: "\<And>u. u \<in> set (revoked w) \<Longrightarrow> u < next_url w"
        using acc by (rule accounted_revoked_bound)
      show ?thesis
      proof (cases "req_resultImage r")
        case None
        then show ?thesis using acc Settled r none out bound
          by (auto simp add: accounted_def created_def revoked_def captured_def
                   handleProcess_resume_def Let_def atLeastLessThanSuc)
      next
        case (Some old)
        then have "old < next_url w" "old \<notin> set (revoked w)"
          using acc r by (auto simp: accounted_def captured_def)
        then show ?thesis using acc Settled r none out bound Some
          by (auto simp add: accounted_def created_def revoked_def captured_def
                   handleProcess_resume_def Let_def atLeastLessThanSuc)
      qed
    qed
  qed
qed

lemma accounted_run:
  "single_flight w \<Longrightarrow> accounted w D \<Longrightarrow> accounted (run e evs w) (D @ dropped e evs w)"
proof (induction evs arbitrary: w D)
  case Nil
  then show ?case by simp
next
  case (Cons ev evs)
  have "accounted (run e evs (step e ev w)) ((D @ dropped_by ev w) @ dropped e evs (step e ev w))"
    using Cons.prems by (intro Cons.IH single_flight_step accounted_step)
  then show ?case by simp
qed

lemma reachable_single_flight: "single_flight (run e evs (initial e))"
  by (rule single_flight_run) (rule single_flight_initial)

lemma reachable_accounted:
  "accounted (run e evs (initial e)) (dropped e evs (initial e))"
  using accounted_run [OF single_flight_initial accounted_initial, of e evs] by simp

lemma fresh_url: "accounted w D \<Longrightarrow> next_url w \<notin> set (created w)"
  by (simp add: accounted_def)

lemma captured_bound:
  "accounted w D \<Longrightarrow> i < length (pending w) \<Longrightarrow> req_resultImage (pending w ! i) = Some u
     \<Longrightarrow> u < next_url w"
proof -
  assume acc: "accounted w D" and i: "i < length (pending w)"
    and u: "req_resultImage (pending w ! i) = Some u"
  from i u have "u \<in> captured w"
    by (auto simp: captured_def intro!: bexI [of _ "pending w ! i"])
  with acc show ?thesis by (auto simp: accounted_def)
qed

lemma resume_failed_result:
  "failed out \<Longrightarrow> resultImage (app (handleProcess_resume e r out w)) = resultImage (app w)"
  by (cases out)
     (auto simp: handleProcess_resume_def catch_finally_def split: sum.splits)

lemma resume_success_result:
  "\<not> failed out \<Longrightarrow> resultImage (app (handleProcess_resume e r out w)) = Some (next_url w)"
  by (cases out)
     (auto simp: handleProcess_resume_def Let_def split: sum.splits option.splits)

section \<open>Events of the zones\<close>

lemma run_zone_isProcessing:
  "isProcessing (app (run e (map (\<lambda>(z, ze). Zone z ze) zes) w)) = isProcessing (app w)"
proof (induction zes arbitrary: w)
  case Nil
  show ?case by simp
next
  case (Cons a zes)
  obtain z ze where a: "a = (z, ze)" by (cases a)
  show ?case using Cons.IH [of "zone_step z ze w"] a
    by (simp add: zone_step_frame del: zone_step.simps)
qed

lemma zone_step_pdf_cong:
  "pdf (app w1) = pdf (app w2) \<Longrightarrow>
   pdf (app (zone_step PdfZone ze w1)) = pdf (app (zone_step PdfZone ze w2))"
  by (cases ze)
     (simp_all add: handleDrop_def onChange_def onRemove_def setPdf_def
           split: list.split option.split)

lemma zone_step_shp_cong:
  "shp (app w1) = shp (app w2) \<Longrightarrow>
   shp (app (zone_step ShpZone ze w1)) = shp (app (zone_step ShpZone ze w2))"
  by (cases ze)
     (simp_all add: handleDrop_def onChange_def onRemove_def setShp_def
           split: list.split option.split)

lemma zone_step_other_slot:
  "pdf (app (zone_step ShpZone ze w)) = pdf (app w)"
  "shp (app (zone_step PdfZone ze w)) = shp (app w)"
  by (cases ze;
      simp add: handleDrop_def onChange_def onRemove_def setPdf_def setShp_def
           split: list.split option.split)+

lemma run_zone_pdf:
  "pdf (app w1) = pdf (app w2) \<Longrightarrow>
   pdf (app (run e (map (\<lambda>(z, ze). Zone z ze) zes) w1)) =
   pdf (app (run e (map (Zone PdfZone) (map snd (filter (\<lambda>(z, ze). z = PdfZone) zes))) w2))"
proof (induction zes arbitrary: w1 w2)
  case Nil
  then show ?case by simp
next
  case (Cons a zes)
  obtain z ze where a: "a = (z, ze)" by (cases a)
  show ?case
  proof (cases z)
    case PdfZone
    have "pdf (app (zone_step PdfZone ze w1)) = pdf (app (zone_step PdfZone ze w2))"
      using Cons.prems by (rule zone_step_pdf_cong)
    then have "pdf (app (run e (map (\<lambda>(z, ze). Zone z ze) zes) (zone_step PdfZone ze w1))) =
      pdf (app (run e (map (Zone PdfZone) (map snd (filter (\<lambda>(z, ze). z = PdfZone) zes)))
                  (zone_step PdfZone ze w2)))"
      by (rule Cons.IH)
    then show ?thesis using a PdfZone by (simp del: zone_step.simps)
  next
    case ShpZone
    have "pdf (app (zone_step ShpZone ze w1)) = pdf (app w2)"
      using Cons.prems by (simp only: zone_step_other_slot)
    then have "pdf (app (run e (map (\<lambda>(z, ze). Zone z ze) zes) (zone_step ShpZone ze w1))) =
      pdf (app (run e (map (Zone PdfZone) (map snd (filter (\<lambda>(z, ze). z = PdfZone) zes))) w2))"
      by (rule Cons.IH)
    then show ?thesis using a ShpZone by (simp del: zone_step.simps)
  qed
qed

lemma run_zone_shp:
  "shp (app w1) = shp (app w2) \<Longrightarrow>
   shp (app (run e (map (\<lambda>(z, ze). Zone z ze) zes) w1)) =
   shp (app (run e (map (Zone ShpZone) (map snd (filter (\<lambda>(z, ze). z = ShpZone) zes))) w2))"
proof (induction zes arbitrary: w1 w2)
  case Nil
  then show ?case by simp
next
  case (Cons a zes)
  obtain z ze where a: "a = (z, ze)" by (cases a)
  show ?case
  proof (cases z)
    case ShpZone
    have "shp (app (zone_step ShpZone ze w1)) = shp (app (zone_step ShpZone ze w2))"
      using Cons.prems by (rule zone_step_shp_cong)
    then have "shp (app (run e (map (\<lambda>(z, ze). Zone z ze) zes) (zone_step ShpZone ze w1))) =
      shp (app (run e (map (Zone ShpZone) (map snd (filter (\<lambda>(z, ze). z = ShpZone) zes)))
                  (zone_step ShpZone ze w2)))"
      by (rule Cons.IH)
    then show ?thesis using a ShpZone by (simp del: zone_step.simps)
  next
    case PdfZone
    have "shp (app (zone_step PdfZone ze w1)) = shp (app w2)"
      using Cons.prems by (simp only: zone_step_other_slot)
    then have "shp (app (run e (map (\<lambda>(z, ze). Zone z ze) zes) (zone_step PdfZone ze w1))) =
      shp (app (run e (map (Zone ShpZone) (map snd (filter (\<lambda>(z, ze). z = ShpZone) zes))) w2))"
      by (rule Cons.IH)
    then show ?thesis using a PdfZone by (simp del: zone_step.simps)
  qed
qed

section \<open>The continuation of a submission\<close>



text \<open>
  The success branch creates the new object URL first and then releases the URL that was
  displayed when the submission started, if there was one.
\<close>

lemma success_handoff:
  "ok resp \<Longrightarrow> blob resp = Inr b \<Longrightarrow>
   effects (handleProcess_resume e r (Resolved resp) w) =
     effects w @ CreateObjectURL b (next_url w) #
       (case req_resultImage r of Some old \<Rightarrow> [RevokeObjectURL old] | None \<Rightarrow> []) \<and>
   resultImage (app (handleProcess_resume e r (Resolved resp) w)) = Some (next_url w)"
  by (simp add: handleProcess_resume_def Let_def split: option.split)

lemma count_list_distinct: "distinct xs \<Longrightarrow> x \<in> set xs \<Longrightarrow> count_list xs x = 1"
  by (induction xs) (auto simp: count_list_0_iff)




text \<open>
  \<^verbatim>\<open>handleReset\<close> clears the two slots, the error message and the result reference, and
  releases the object URL that the state references, if it references one.
\<close>

lemma reset_clears_and_releases:
  "pdf (app (handleReset w)) = None \<and>
   shp (app (handleReset w)) = None \<and>
   errorDetails (app (handleReset w)) = None \<and>
   resultImage (app (handleReset w)) = None \<and>
   effects (handleReset w) =
     effects w @ (case resultImage (app w) of Some u \<Rightarrow> [RevokeObjectURL u] | None \<Rightarrow> [])"
  by (simp add: handleReset_def Let_def split: option.split)

section \<open>Claims on the endpoint\<close>

text \<open>
  Claim C7. The endpoint is the base URL without one trailing \<^verbatim>\<open>/\<close>, followed by the fixed
  path \<^verbatim>\<open>/api/procesar/\<close>: for the base \<^verbatim>\<open>http://x/\<close> it is \<^verbatim>\<open>http://x/api/procesar/\<close>,
  with no doubled separator, and a base without a trailing \<^verbatim>\<open>/\<close> gives the same endpoint
  as the base with one. It is the endpoint to which \<^verbatim>\<open>handleProcess\<close> sends the request.
\<close>

theorem endpoint_strips_trailing_separator:
  "endpoint_of ''http://x/'' = ''http://x/api/procesar/'' \<and>
   endpoint_of ''http://x'' = ''http://x/api/procesar/'' \<and>
   endpoint_of (b @ ''/'') = b @ ''/api/procesar/'' \<and>
   (b = [] \<or> last b \<noteq> CHR ''/'' \<longrightarrow> endpoint_of b = endpoint_of (b @ ''/'')) \<and>
   (pdf (app w) = Some p \<and> shp (app w) = Some s \<longrightarrow>
      effects (handleProcess e w) =
        effects w @ [Fetch (endpoint_of (baseUrl_of e (backendUrl (app w))))
                       [(''pdf'', p), (''shp'', s)]])"
proof -
  have "endpoint_of (b @ ''/'') = b @ ''/api/procesar/''"
    unfolding endpoint_of_def by (simp only: replace_trailing_slash_snoc)
  moreover have "b = [] \<or> last b \<noteq> CHR ''/'' \<longrightarrow> endpoint_of b = endpoint_of (b @ ''/'')"
    unfolding endpoint_of_def
    by (simp only: replace_trailing_slash_snoc) (simp add: replace_trailing_slash_id)
  moreover have "endpoint_of ''http://x/'' = ''http://x/api/procesar/''"
    by (simp add: endpoint_of_def)
  moreover have "endpoint_of ''http://x'' = ''http://x/api/procesar/''"
    by (simp add: endpoint_of_def)
  moreover have "pdf (app w) = Some p \<and> shp (app w) = Some s \<longrightarrow>
      effects (handleProcess e w) =
        effects w @ [Fetch (endpoint_of (baseUrl_of e (backendUrl (app w))))
                       [(''pdf'', p), (''shp'', s)]]"
    by (simp add: handleProcess_def Let_def)
  ultimately show ?thesis by blast
qed

theorem endpoint_strips_trailing_separator_witness:
  "(''http://x'' = [] \<or> last ''http://x'' \<noteq> CHR ''/'') \<and>
   endpoint_of ''http://x'' = endpoint_of (''http://x'' @ ''/'') \<and>
   pdf (app (run sample_env select_both (initial sample_env))) = Some document_pdf \<and>
   shp (app (run sample_env select_both (initial sample_env))) = Some geometry_zip \<and>
   effects (handleProcess sample_env (run sample_env select_both (initial sample_env))) =
     [Fetch ''http://x/api/procesar/'' [(''pdf'', document_pdf), (''shp'', geometry_zip)]]"
  using endpoint_strips_trailing_separator
          [of "''http://x''" "run sample_env select_both (initial sample_env)"
              document_pdf geometry_zip sample_env]
  by (simp add: select_both_def initial_def initial_app_def sample_env_def handleDrop_def
        onChange_def setPdf_def setShp_def endpoint_of_def baseUrl_of_def)

text \<open>
  Claim C10. At most one trailing \<^verbatim>\<open>/\<close> is removed from the base URL: for a base that
  ends in two slashes the endpoint keeps one of them in front of the fixed path, so that
  \<^verbatim>\<open>http://x//\<close> gives \<^verbatim>\<open>http://x//api/procesar/\<close>.
\<close>

theorem endpoint_keeps_doubled_separator:
  "endpoint_of (b @ ''//'') = b @ ''//api/procesar/'' \<and>
   endpoint_of ''http://x//'' = ''http://x//api/procesar/'' \<and>
   (replace_trailing_slash s = s \<or> replace_trailing_slash s @ ''/'' = s)"
proof -
  have "replace_trailing_slash ((b @ ''/'') @ ''/'') = b @ ''/''"
    by (rule replace_trailing_slash_snoc)
  then have "endpoint_of (b @ ''//'') = b @ ''//api/procesar/''"
    by (simp add: endpoint_of_def)
  moreover have "endpoint_of ''http://x//'' = ''http://x//api/procesar/''"
    by (simp add: endpoint_of_def)
  ultimately show ?thesis using replace_trailing_slash_cases [of s] by blast
qed

section \<open>Claims on single handlers\<close>

text \<open>
  Claim C8. A drop with one or more files forwards exactly one file to the selection
  callback, the first of the payload; the other files are ignored and the dragging flag
  is cleared. A drop with an empty payload forwards nothing (and clears the flag). In
  the application the file forwarded becomes the content of the slot of the zone.
\<close>

theorem drop_forwards_first_file:
  "handleDrop (f # fs) d = (d\<lparr>isDragging := False\<rparr>, [Some f]) \<and>
   handleDrop [] d = (d\<lparr>isDragging := False\<rparr>, []) \<and>
   step e (Zone PdfZone (Drop (f # fs))) w =
     w\<lparr>pdfZone := (pdfZone w)\<lparr>isDragging := False\<rparr>, app := (app w)\<lparr>pdf := Some f\<rparr>\<rparr> \<and>
   step e (Zone ShpZone (Drop (f # fs))) w =
     w\<lparr>shpZone := (shpZone w)\<lparr>isDragging := False\<rparr>, app := (app w)\<lparr>shp := Some f\<rparr>\<rparr> \<and>
   step e (Zone PdfZone (Drop [])) w = w\<lparr>pdfZone := (pdfZone w)\<lparr>isDragging := False\<rparr>\<rparr> \<and>
   step e (Zone ShpZone (Drop [])) w = w\<lparr>shpZone := (shpZone w)\<lparr>isDragging := False\<rparr>\<rparr>"
  by (simp add: handleDrop_def setPdf_def setShp_def)




section \<open>Claims on sequences of events\<close>

text \<open>
  Claim C1, as stated: \<^verbatim>\<open>handleProcess\<close> called in a state with \<^verbatim>\<open>isProcessing\<close> true makes
  no network call and leaves the state unchanged. The guard of \<^verbatim>\<open>handleProcess\<close> tests
  the two slots only: called while a submission is in flight, with both slots filled, it
  sends a second request and a second call is pending.
\<close>

theorem handleProcess_in_flight_counterexample:
  "isProcessing (app (run sample_env (select_both @ [SubmitClick]) (initial sample_env))) \<and>
   effects (run sample_env (select_both @ [SubmitClick]) (initial sample_env)) =
     [Fetch ''http://x/api/procesar/'' [(''pdf'', document_pdf), (''shp'', geometry_zip)]] \<and>
   effects (handleProcess sample_env
              (run sample_env (select_both @ [SubmitClick]) (initial sample_env))) =
     [Fetch ''http://x/api/procesar/'' [(''pdf'', document_pdf), (''shp'', geometry_zip)],
      Fetch ''http://x/api/procesar/'' [(''pdf'', document_pdf), (''shp'', geometry_zip)]] \<and>
   length (pending (handleProcess sample_env
              (run sample_env (select_both @ [SubmitClick]) (initial sample_env)))) = 2"
  by (simp add: sample_defs model_defs)

text \<open>
  Claim C1, amended. The guard against a second submission is the \<^verbatim>\<open>disabled\<close> attribute
  of the submit button: a click on the button while \<^verbatim>\<open>isProcessing\<close> is true changes
  nothing (no network call, the same state). Hence after every sequence of events of the
  rendered component at most one request is outstanding, and \<^verbatim>\<open>isProcessing\<close> is true
  exactly while one is.
\<close>

theorem submit_click_in_flight_is_noop:
  "(isProcessing (app w) \<longrightarrow> step e SubmitClick w = w) \<and>
   length (pending (run e evs (initial e))) \<le> 1 \<and>
   (isProcessing (app (run e evs (initial e))) \<longleftrightarrow> pending (run e evs (initial e)) \<noteq> [])"
  using reachable_single_flight [of e evs]
  by (simp add: single_flight_def submit_disabled_def)

theorem submit_click_in_flight_is_noop_witness:
  "isProcessing (app (run sample_env (select_both @ [SubmitClick]) (initial sample_env))) \<and>
   step sample_env SubmitClick (run sample_env (select_both @ [SubmitClick]) (initial sample_env))
     = run sample_env (select_both @ [SubmitClick]) (initial sample_env) \<and>
   length (pending (run sample_env (select_both @ [SubmitClick, SubmitClick, SubmitClick])
                      (initial sample_env))) \<le> 1 \<and>
   effects (run sample_env (select_both @ [SubmitClick, SubmitClick, SubmitClick])
              (initial sample_env)) =
     [Fetch ''http://x/api/procesar/'' [(''pdf'', document_pdf), (''shp'', geometry_zip)]]"
  using submit_click_in_flight_is_noop
          [of "run sample_env (select_both @ [SubmitClick]) (initial sample_env)" sample_env
              "select_both @ [SubmitClick, SubmitClick, SubmitClick]"]
  by (simp add: sample_defs model_defs)

text \<open>
  Claim C9. After every sequence of events, while a submission is in flight the state
  holds neither a result nor an error message. A click on the enabled submit button
  clears both in the step that sends the request. When the submission fails the result
  stays absent; when it succeeds the result is a new object URL, different from every
  URL created before and from the one that was displayed when the submission started.
\<close>

theorem submission_clears_result_and_error:
  "(isProcessing (app (run e evs (initial e))) \<longrightarrow>
      resultImage (app (run e evs (initial e))) = None \<and>
      errorDetails (app (run e evs (initial e))) = None) \<and>
   (\<not> submit_disabled (app w) \<longrightarrow>
      isProcessing (app (step e SubmitClick w)) \<and>
      resultImage (app (step e SubmitClick w)) = None \<and>
      errorDetails (app (step e SubmitClick w)) = None \<and>
      (\<exists>body. effects (step e SubmitClick w) =
         effects w @ [Fetch (endpoint_of (baseUrl_of e (backendUrl (app w)))) body])) \<and>
   (i < length (pending (run e evs (initial e))) \<and> failed out \<longrightarrow>
      resultImage (app (step e (Settled i out) (run e evs (initial e)))) = None) \<and>
   (i < length (pending (run e evs (initial e))) \<and> \<not> failed out \<longrightarrow>
      resultImage (app (step e (Settled i out) (run e evs (initial e))))
        = Some (next_url (run e evs (initial e))) \<and>
      next_url (run e evs (initial e)) \<notin> set (created (run e evs (initial e))) \<and>
      req_resultImage (pending (run e evs (initial e)) ! i)
        \<noteq> Some (next_url (run e evs (initial e))))"
proof -
  let ?w = "run e evs (initial e)"
  have sf: "single_flight ?w" by (rule reachable_single_flight)
  have acc: "accounted ?w (dropped e evs (initial e))" by (rule reachable_accounted)
  have a: "isProcessing (app ?w) \<longrightarrow> resultImage (app ?w) = None \<and> errorDetails (app ?w) = None"
    using sf by (simp add: single_flight_def)
  have b: "\<not> submit_disabled (app w) \<longrightarrow>
      isProcessing (app (step e SubmitClick w)) \<and>
      resultImage (app (step e SubmitClick w)) = None \<and>
      errorDetails (app (step e SubmitClick w)) = None \<and>
      (\<exists>body. effects (step e SubmitClick w) =
         effects w @ [Fetch (endpoint_of (baseUrl_of e (backendUrl (app w)))) body])"
    by (auto simp: submit_disabled_def handleProcess_def Let_def)
  have c: "i < length (pending ?w) \<and> failed out \<longrightarrow>
      resultImage (app (step e (Settled i out) ?w)) = None"
  proof
    assume h: "i < length (pending ?w) \<and> failed out"
    then have "pending ?w \<noteq> []" by auto
    then have "resultImage (app ?w) = None" using sf by (simp add: single_flight_def)
    then show "resultImage (app (step e (Settled i out) ?w)) = None"
      using h by (simp add: resume_failed_result)
  qed
  have d: "i < length (pending ?w) \<and> \<not> failed out \<longrightarrow>
      resultImage (app (step e (Settled i out) ?w)) = Some (next_url ?w) \<and>
      next_url ?w \<notin> set (created ?w) \<and>
      req_resultImage (pending ?w ! i) \<noteq> Some (next_url ?w)"
  proof
    assume h: "i < length (pending ?w) \<and> \<not> failed out"
    then have "resultImage (app (step e (Settled i out) ?w)) = Some (next_url ?w)"
      by (simp add: resume_success_result)
    moreover have "next_url ?w \<notin> set (created ?w)" using acc by (rule fresh_url)
    moreover have "req_resultImage (pending ?w ! i) \<noteq> Some (next_url ?w)"
      using captured_bound [OF acc, of i "next_url ?w"] h by auto
    ultimately show "resultImage (app (step e (Settled i out) ?w)) = Some (next_url ?w) \<and>
      next_url ?w \<notin> set (created ?w) \<and>
      req_resultImage (pending ?w ! i) \<noteq> Some (next_url ?w)" by blast
  qed
  from a b c d show ?thesis by blast
qed

theorem submission_clears_result_and_error_witness:
  "\<not> submit_disabled (app (run sample_env first_success (initial sample_env))) \<and>
   resultImage (app (run sample_env first_success (initial sample_env))) = Some 0 \<and>
   isProcessing (app (run sample_env (first_success @ [SubmitClick]) (initial sample_env))) \<and>
   resultImage (app (run sample_env (first_success @ [SubmitClick]) (initial sample_env))) = None \<and>
   errorDetails (app (run sample_env (first_success @ [SubmitClick]) (initial sample_env))) = None \<and>
   0 < length (pending (run sample_env (first_success @ [SubmitClick]) (initial sample_env))) \<and>
   failed (error_response ''Internal Server Error'' None) \<and>
   resultImage (app (run sample_env
      (first_success @ [SubmitClick, Settled 0 (error_response ''Internal Server Error'' None)])
      (initial sample_env))) = None \<and>
   \<not> failed (image_response ''png2'') \<and>
   resultImage (app (run sample_env
      (first_success @ [SubmitClick, Settled 0 (image_response ''png2'')])
      (initial sample_env))) = Some 1"
  using submission_clears_result_and_error
          [of sample_env "first_success @ [SubmitClick]"
              "run sample_env first_success (initial sample_env)" 0
              "error_response ''Internal Server Error'' None"]
        submission_clears_result_and_error
          [of sample_env "first_success @ [SubmitClick]"
              "run sample_env first_success (initial sample_env)" 0
              "image_response ''png2''"]
  by (simp add: sample_defs model_defs)

text \<open>
  Claim C4. After every sequence of events of the two zones (selections by drop or by
  the file picker, removals, drags), started with no submission in flight, the submit
  button is enabled if and only if both slots hold a file. The content of a slot depends
  on the events of its own zone only, whatever the order in which the events of the two
  zones are interleaved. With either slot empty, \<^verbatim>\<open>handleProcess\<close> and a click on the
  submit button change nothing.
\<close>

theorem ready_iff_both_slots:
  "(\<not> isProcessing (app w) \<longrightarrow>
      (\<not> submit_disabled (app (run e (map (\<lambda>(z, ze). Zone z ze) zes) w)) \<longleftrightarrow>
         pdf (app (run e (map (\<lambda>(z, ze). Zone z ze) zes) w)) \<noteq> None \<and>
         shp (app (run e (map (\<lambda>(z, ze). Zone z ze) zes) w)) \<noteq> None)) \<and>
   pdf (app (run e (map (\<lambda>(z, ze). Zone z ze) zes) w)) =
     pdf (app (run e (map (Zone PdfZone) (map snd (filter (\<lambda>(z, ze). z = PdfZone) zes))) w)) \<and>
   shp (app (run e (map (\<lambda>(z, ze). Zone z ze) zes) w)) =
     shp (app (run e (map (Zone ShpZone) (map snd (filter (\<lambda>(z, ze). z = ShpZone) zes))) w)) \<and>
   (pdf (app w) = None \<or> shp (app w) = None \<longrightarrow>
      handleProcess e w = w \<and> step e SubmitClick w = w)"
proof -
  have ready: "\<not> isProcessing (app w) \<longrightarrow>
      (\<not> submit_disabled (app (run e (map (\<lambda>(z, ze). Zone z ze) zes) w)) \<longleftrightarrow>
         pdf (app (run e (map (\<lambda>(z, ze). Zone z ze) zes) w)) \<noteq> None \<and>
         shp (app (run e (map (\<lambda>(z, ze). Zone z ze) zes) w)) \<noteq> None)"
    by (simp add: submit_disabled_def run_zone_isProcessing)
  have noop: "pdf (app w) = None \<or> shp (app w) = None \<longrightarrow>
      handleProcess e w = w \<and> step e SubmitClick w = w"
    by (auto simp: handleProcess_def submit_disabled_def split: option.splits)
  show ?thesis
    by (rule conjI [OF ready conjI [OF run_zone_pdf [OF refl] conjI [OF run_zone_shp [OF refl] noop]]])
qed

theorem ready_iff_both_slots_witness:
  "\<not> isProcessing (app (initial sample_env)) \<and>
   \<not> submit_disabled (app (run sample_env
        (map (\<lambda>(z, ze). Zone z ze)
           [(ShpZone, Drop [geometry_zip, document_pdf]), (PdfZone, Drag ''dragenter''),
            (PdfZone, InputChange (Some [document_pdf]))])
        (initial sample_env))) \<and>
   (pdf (app (initial sample_env)) = None \<or> shp (app (initial sample_env)) = None) \<and>
   handleProcess sample_env (initial sample_env) = initial sample_env \<and>
   step sample_env SubmitClick (initial sample_env) = initial sample_env"
proof -
  have slots: "pdf (app (run sample_env
        (map (\<lambda>(z, ze). Zone z ze)
           [(ShpZone, Drop [geometry_zip, document_pdf]), (PdfZone, Drag ''dragenter''),
            (PdfZone, InputChange (Some [document_pdf]))])
        (initial sample_env))) \<noteq> None \<and>
     shp (app (run sample_env
        (map (\<lambda>(z, ze). Zone z ze)
           [(ShpZone, Drop [geometry_zip, document_pdf]), (PdfZone, Drag ''dragenter''),
            (PdfZone, InputChange (Some [document_pdf]))])
        (initial sample_env))) \<noteq> None"
    by (simp add: model_defs)
  have idle: "\<not> isProcessing (app (initial sample_env))"
    by (simp add: model_defs)
  have empty: "pdf (app (initial sample_env)) = None \<or> shp (app (initial sample_env)) = None"
    by (simp add: model_defs)
  note inst = ready_iff_both_slots
          [of "initial sample_env" sample_env
              "[(ShpZone, Drop [geometry_zip, document_pdf]), (PdfZone, Drag ''dragenter''),
                (PdfZone, InputChange (Some [document_pdf]))]"]
  from inst idle slots empty show ?thesis by blast
qed

text \<open>
  Claim C2. On every successful submission one new object URL is created, a prior one is
  released after the new one has been created, and exactly one object URL is live after
  the transition. The order in the success branch is as claimed (\<open>success_handoff\<close>).
  But the prior URL is released only by the submission that was started while it was
  displayed, and only if that submission succeeds: when it fails, the URL is neither
  displayed again nor released, and the next submission does not know it. After a
  success, a failure and a second success two object URLs are live.
\<close>

theorem failed_resubmission_orphans_object_url:
  "effects (run sample_env success_failure_success (initial sample_env)) =
     [Fetch ''http://x/api/procesar/'' [(''pdf'', document_pdf), (''shp'', geometry_zip)],
      CreateObjectURL (Blob ''png1'') 0,
      Fetch ''http://x/api/procesar/'' [(''pdf'', document_pdf), (''shp'', geometry_zip)],
      Fetch ''http://x/api/procesar/'' [(''pdf'', document_pdf), (''shp'', geometry_zip)],
      CreateObjectURL (Blob ''png2'') 1] \<and>
   resultImage (app (run sample_env success_failure_success (initial sample_env))) = Some 1 \<and>
   pending (run sample_env success_failure_success (initial sample_env)) = [] \<and>
   live (run sample_env success_failure_success (initial sample_env)) = {0, 1}"
  by (simp add: sample_defs model_defs)

text \<open>
  Claim C6. After a reset both slots are empty, there is no error message and no result
  reference, and an object URL that was live at the time of the reset is released. The
  first three hold from every state, and the URL that the state references is released
  (\<open>reset_clears_and_releases\<close>). But a URL that a failed submission has dropped is live
  and is not referenced by the state: after a success, a failure and a second success,
  URLs 0 and 1 are live, a reset releases URL 1 only, and URL 0 stays live.
\<close>

theorem reset_leaves_orphan_unreleased:
  "resultImage (app (run sample_env success_failure_success (initial sample_env))) = Some 1 \<and>
   live (run sample_env success_failure_success (initial sample_env)) = {0, 1} \<and>
   step sample_env ResetClick (run sample_env success_failure_success (initial sample_env)) =
     handleReset (run sample_env success_failure_success (initial sample_env)) \<and>
   effects (handleReset (run sample_env success_failure_success (initial sample_env))) =
     effects (run sample_env success_failure_success (initial sample_env)) @ [RevokeObjectURL 1] \<and>
   revoked (handleReset (run sample_env success_failure_success (initial sample_env))) = [1] \<and>
   live (handleReset (run sample_env success_failure_success (initial sample_env))) = {0}"
  by (simp add: sample_defs model_defs) auto

text \<open>
  Claim C3, as stated: every object URL that is created is released exactly once before
  teardown. After a single successful submission the URL created has not been released,
  and nothing releases it unless the user resets or submits again.
\<close>

theorem single_success_counterexample:
  "created (run sample_env first_success (initial sample_env)) = [0] \<and>
   count_list (revoked (run sample_env first_success (initial sample_env))) 0 = 0"
  by (simp add: sample_defs model_defs)

text \<open>
  Claim C3, amended. After every sequence of events: no object URL has been released
  twice; only URLs that were created have been released; every URL that was created has
  been released exactly once, or is the one displayed, or is the one that the pending
  submission releases when it succeeds, or was displayed when a submission started that
  then failed; and the URL that is displayed or that the pending submission will release
  has been created and has not been released.
\<close>

theorem object_urls_released_at_most_once:
  "distinct (revoked (run e evs (initial e))) \<and>
   set (revoked (run e evs (initial e))) \<subseteq> set (created (run e evs (initial e))) \<and>
   (\<forall>u \<in> set (created (run e evs (initial e))).
      count_list (revoked (run e evs (initial e))) u = 1 \<or>
      resultImage (app (run e evs (initial e))) = Some u \<or>
      u \<in> captured (run e evs (initial e)) \<or>
      u \<in> set (dropped e evs (initial e))) \<and>
   (\<forall>u. resultImage (app (run e evs (initial e))) = Some u \<or> u \<in> captured (run e evs (initial e))
      \<longrightarrow> u \<in> set (created (run e evs (initial e))) \<and>
          u \<notin> set (revoked (run e evs (initial e))))"
proof -
  let ?w = "run e evs (initial e)"
  let ?D = "dropped e evs (initial e)"
  have acc: "accounted ?w ?D" by (rule reachable_accounted)
  then have cr: "set (created ?w) = {0..<next_url ?w}"
    and dist: "distinct (revoked ?w)"
    and disj: "set (revoked ?w) \<inter> (set_option (resultImage (app ?w)) \<union> captured ?w) = {}"
    and cover: "set (revoked ?w) \<union> set_option (resultImage (app ?w)) \<union> captured ?w \<union> set ?D
       = {0..<next_url ?w}"
    by (simp_all add: accounted_def)
  have sub: "set (revoked ?w) \<subseteq> set (created ?w)"
    using cr cover by blast
  have classes: "\<forall>u \<in> set (created ?w).
      count_list (revoked ?w) u = 1 \<or> resultImage (app ?w) = Some u \<or>
      u \<in> captured ?w \<or> u \<in> set ?D"
  proof
    fix u assume "u \<in> set (created ?w)"
    then have "u \<in> set (revoked ?w) \<union> set_option (resultImage (app ?w)) \<union> captured ?w \<union> set ?D"
      using cr cover by simp
    then show "count_list (revoked ?w) u = 1 \<or> resultImage (app ?w) = Some u \<or>
      u \<in> captured ?w \<or> u \<in> set ?D"
      using count_list_distinct [OF dist, of u] by (auto simp: option.set_sel elim: option.set_cases)
  qed
  have held: "\<forall>u. resultImage (app ?w) = Some u \<or> u \<in> captured ?w
      \<longrightarrow> u \<in> set (created ?w) \<and> u \<notin> set (revoked ?w)"
    using cr cover disj by auto
  show ?thesis
    by (rule conjI [OF dist conjI [OF sub conjI [OF classes held]]])
qed

theorem object_urls_released_at_most_once_witness:
  "created (run sample_env success_success_reset (initial sample_env)) = [0, 1] \<and>
   revoked (run sample_env success_success_reset (initial sample_env)) = [0, 1] \<and>
   count_list (revoked (run sample_env success_success_reset (initial sample_env))) 0 = 1 \<and>
   count_list (revoked (run sample_env success_success_reset (initial sample_env))) 1 = 1 \<and>
   resultImage (app (run sample_env first_success (initial sample_env))) = Some 0 \<and>
   created (run sample_env first_success (initial sample_env)) = [0] \<and>
   revoked (run sample_env first_success (initial sample_env)) = []"
proof -
  have facts: "created (run sample_env success_success_reset (initial sample_env)) = [0, 1] \<and>
   revoked (run sample_env success_success_reset (initial sample_env)) = [0, 1] \<and>
   resultImage (app (run sample_env first_success (initial sample_env))) = Some 0 \<and>
   created (run sample_env first_success (initial sample_env)) = [0] \<and>
   revoked (run sample_env first_success (initial sample_env)) = []"
    by (simp add: sample_defs model_defs)
  then have counts:
    "count_list (revoked (run sample_env success_success_reset (initial sample_env))) 0 = 1 \<and>
     count_list (revoked (run sample_env success_success_reset (initial sample_env))) 1 = 1"
    by simp
  note inst = object_urls_released_at_most_once [of sample_env success_success_reset]
    object_urls_released_at_most_once [of sample_env first_success]
  from inst facts counts show ?thesis by blast
qed

end
